theory Spec2Isabelle
  imports Main
begin

section \<open>Data model of \<^verbatim>\<open>backend/main.go\<close>\<close>

text \<open>
  A connection handle is the pointer \<^verbatim>\<open>*websocket.Conn\<close>; only its identity matters, so
  it is a number. An instant of \<^verbatim>\<open>time.Time\<close> is an integer, the zero value of the type
  being \<open>0\<close>.
\<close>

type_synonym conn = nat
type_synonym time = int

text \<open>
  \<^verbatim>\<open>
  type Task struct {
      ID        int       `json:"id"`
      Title     string    `json:"title"`
      Assigned  string    `json:"assigned"`
      Status    string    `json:"status"`
      CreatedAt time.Time `json:"created_at"`
  }
  \<close>
\<close>

record Task =
  ID :: int
  Title :: string
  Assigned :: string
  Status :: string
  CreatedAt :: time

text \<open>JSON values, as far as the handlers produce them.\<close>

datatype json =
    JNull
  | JNum int
  | JStr string
  | JTime time
  | JArr "json list"
  | JObj "(string \<times> json) list"

definition json_of_task :: "Task \<Rightarrow> json" where
  "json_of_task t =
     JObj [(''id'', JNum (ID t)), (''title'', JStr (Title t)), (''assigned'', JStr (Assigned t)),
           (''status'', JStr (Status t)), (''created_at'', JTime (CreatedAt t))]"

text \<open>
  A Go slice is either \<^verbatim>\<open>nil\<close> or backed by an array; \<^verbatim>\<open>encoding/json\<close> writes the
  first as \<^verbatim>\<open>null\<close> and the second as an array, also when it is empty. \<^verbatim>\<open>append\<close> to
  a nil slice allocates.
\<close>

datatype 'a slice = NilSlice | Slice "'a list"

fun len_slice :: "'a slice \<Rightarrow> nat" where
  "len_slice NilSlice = 0"
| "len_slice (Slice xs) = length xs"

fun append_slice :: "'a slice \<Rightarrow> 'a \<Rightarrow> 'a slice" where
  "append_slice NilSlice x = Slice [x]"
| "append_slice (Slice xs) x = Slice (xs @ [x])"

fun json_of_tasks :: "Task slice \<Rightarrow> json" where
  "json_of_tasks NilSlice = JNull"
| "json_of_tasks (Slice ts) = JArr (map json_of_task ts)"

text \<open>An HTTP response: the status code and the JSON body given to \<^verbatim>\<open>c.JSON\<close>.\<close>

record response =
  status :: nat
  body :: json

text \<open>
  What a WebSocket peer is sent: \<^verbatim>\<open>WriteJSON(v)\<close> sends the JSON encoding of \<open>v\<close>,
  \<^verbatim>\<open>WriteMessage(messageType, data)\<close> sends the bytes as they are.
\<close>

datatype message = JSONMessage json | RawMessage int string

text \<open>
  The effects a handler has on the outside world, in the order it performs them:
  the call of \<^verbatim>\<open>dbConnection.Exec\<close> with the four values of the INSERT, a write on a
  connection with its outcome (\<open>True\<close>: the write returned no error), and the closing of a
  connection.
\<close>

datatype event =
    EvExec string string string time
  | EvWrite conn message bool
  | EvClose conn

text \<open>
  The state the handlers share: the global \<^verbatim>\<open>clients\<close>
  (\<^verbatim>\<open>map[*websocket.Conn]bool\<close>), the rows of the table \<^verbatim>\<open>tasks\<close> behind
  \<^verbatim>\<open>dbConnection\<close>, and the effects performed so far.
\<close>

record server =
  clients :: "conn \<rightharpoonup> bool"
  tasks_table :: "Task list"
  trace :: "event list"

text \<open>
  What a handler does not decide itself: the clock, the outcome of the database calls
  (\<open>exec_result = None\<close>: \<^verbatim>\<open>Exec\<close> returns an error; \<open>Some i\<close>: the row is inserted,
  and the database gives it the identifier \<open>i\<close>, which the INSERT statement leaves to it),
  whether an error ends \<^verbatim>\<open>rows.Next()\<close> early (\<open>next_stops_after = Some n\<close>: after
  \<open>n\<close> rows; \<open>None\<close>: every row is produced), whether \<^verbatim>\<open>rows.Scan\<close> fails on a
  row, whether a write on a connection fails, and the order in which
  \<^verbatim>\<open>range clients\<close> visits the keys, which Go leaves unspecified.
\<close>

record env =
  now :: time
  exec_result :: "int option"
  query_fails :: bool
  next_stops_after :: "nat option"
  scan_fails :: "Task \<Rightarrow> bool"
  write_fails :: "conn \<Rightarrow> bool"
  range_order :: "conn list"

text \<open>
  Go's \<^verbatim>\<open>range\<close> over a map produces every key of the map once, in some order.
\<close>

definition go_range :: "(conn \<rightharpoonup> bool) \<Rightarrow> conn list \<Rightarrow> bool" where
  "go_range m order \<longleftrightarrow> distinct order \<and> set order = dom m"

section \<open>The subscriber registry\<close>

text \<open>\<^verbatim>\<open>clients[c] = true\<close> and \<^verbatim>\<open>delete(clients, c)\<close>.\<close>

definition register :: "conn \<Rightarrow> (conn \<rightharpoonup> bool) \<Rightarrow> (conn \<rightharpoonup> bool)" where
  "register c m = m(c \<mapsto> True)"

definition unregister :: "conn \<Rightarrow> (conn \<rightharpoonup> bool) \<Rightarrow> (conn \<rightharpoonup> bool)" where
  "unregister c m = m(c := None)"

text \<open>
  The loop both senders share:
  \<^verbatim>\<open>
  for client := range clients {
      if err := client.Write...(...); err != nil {
          delete(clients, client)
          client.Close()
      }
  }
  \<close>
  The list is the order of the visit. A key deleted before the loop reaches it is not
  produced, which is the test on \<open>m c\<close>. The result is the map after the loop and the
  effects of the loop.
\<close>

fun write_all ::
  "(conn \<Rightarrow> bool) \<Rightarrow> message \<Rightarrow> conn list \<Rightarrow> (conn \<rightharpoonup> bool) \<Rightarrow> (conn \<rightharpoonup> bool) \<times> event list" where
  "write_all fails msg [] m = (m, [])"
| "write_all fails msg (c # cs) m =
     (if m c = None then write_all fails msg cs m
      else if fails c then
        (let (m', evs) = write_all fails msg cs (unregister c m)
         in (m', EvWrite c msg False # EvClose c # evs))
      else
        (let (m', evs) = write_all fails msg cs m
         in (m', EvWrite c msg True # evs)))"

text \<open>
  \<^verbatim>\<open>
  func broadcastTaskUpdate(task Task) {
      for client := range clients {
          err := client.WriteJSON(task)
          if err != nil { delete(clients, client); client.Close() }
      }
  }
  \<close>
\<close>

definition broadcastTaskUpdate :: "env \<Rightarrow> Task \<Rightarrow> server \<Rightarrow> server" where
  "broadcastTaskUpdate e task s =
     (let (m, evs) = write_all (write_fails e) (JSONMessage (json_of_task task)) (range_order e) (clients s)
      in s\<lparr>clients := m, trace := trace s @ evs\<rparr>)"

section \<open>The WebSocket handler\<close>

text \<open>
  \<^verbatim>\<open>
  app.Get("/ws", websocket.New(func(c *websocket.Conn) {
      clients[c] = true
      defer func() { delete(clients, c); c.Close() }()
      for {
          messageType, msg, err := c.ReadMessage()
          if err != nil { break }
          for client := range clients { ... client.WriteMessage(messageType, msg) ... }
      }
  }))
  \<close>
  The handler is three steps: the registration on entry, the body of the loop for one
  message that was read, and the deferred function on exit.
\<close>

definition ws_open :: "conn \<Rightarrow> server \<Rightarrow> server" where
  "ws_open c s = s\<lparr>clients := register c (clients s)\<rparr>"

definition ws_message :: "env \<Rightarrow> conn \<Rightarrow> int \<Rightarrow> string \<Rightarrow> server \<Rightarrow> server" where
  "ws_message e c messageType msg s =
     (let (m, evs) = write_all (write_fails e) (RawMessage messageType msg) (range_order e) (clients s)
      in s\<lparr>clients := m, trace := trace s @ evs\<rparr>)"

definition ws_close :: "conn \<Rightarrow> server \<Rightarrow> server" where
  "ws_close c s = s\<lparr>clients := unregister c (clients s), trace := trace s @ [EvClose c]\<rparr>"

section \<open>The task handlers\<close>

text \<open>
  The request body as \<^verbatim>\<open>c.BodyParser(&task)\<close> sees it: either it cannot be decoded
  into a \<^verbatim>\<open>Task\<close>, or it gives a value to some of the fields. \<^verbatim>\<open>var task Task\<close> starts
  with every field at its zero value, and decoding sets the fields that are present.
\<close>

record task_fields =
  id_field :: "int option"
  title_field :: "string option"
  assigned_field :: "string option"
  status_field :: "string option"
  created_at_field :: "time option"

datatype body_in = Malformed | Decoded task_fields

fun or_zero :: "'a \<Rightarrow> 'a option \<Rightarrow> 'a" where
  "or_zero z None = z"
| "or_zero z (Some v) = v"

fun BodyParser :: "body_in \<Rightarrow> Task option" where
  "BodyParser Malformed = None"
| "BodyParser (Decoded f) =
     Some \<lparr>ID = or_zero 0 (id_field f), Title = or_zero [] (title_field f),
           Assigned = or_zero [] (assigned_field f), Status = or_zero [] (status_field f),
           CreatedAt = or_zero 0 (created_at_field f)\<rparr>"

definition error_json :: "string \<Rightarrow> json" where
  "error_json msg = JObj [(''error'', JStr msg)]"

text \<open>
  \<^verbatim>\<open>
  func createTask(c *fiber.Ctx) error {
      var task Task
      if err := c.BodyParser(&task); err != nil {
          return c.Status(400).JSON(fiber.Map{"error": "Invalid request"})
      }
      _, err := dbConnection.Exec(context.Background(),
          "INSERT INTO tasks (title, assigned, status, created_at) VALUES ($1, $2, $3, $4)",
          task.Title, task.Assigned, task.Status, time.Now())
      if err != nil {
          return c.Status(500).JSON(fiber.Map{"error": "Failed to create task"})
      }
      broadcastTaskUpdate(task)
      return c.JSON(fiber.Map{"message": "Task created successfully"})
  }
  \<close>
  The row the database stores has the three values of the request, the time of the call
  and the identifier the database gives it.
\<close>

definition stored_row :: "env \<Rightarrow> Task \<Rightarrow> int \<Rightarrow> Task" where
  "stored_row e task i =
     \<lparr>ID = i, Title = Title task, Assigned = Assigned task, Status = Status task, CreatedAt = now e\<rparr>"

definition createTask :: "env \<Rightarrow> body_in \<Rightarrow> server \<Rightarrow> response \<times> server" where
  "createTask e b s =
     (case BodyParser b of
        None \<Rightarrow> (\<lparr>status = 400, body = error_json ''Invalid request''\<rparr>, s)
      | Some task \<Rightarrow>
          (let s1 = s\<lparr>trace := trace s @ [EvExec (Title task) (Assigned task) (Status task) (now e)]\<rparr>
           in case exec_result e of
                None \<Rightarrow> (\<lparr>status = 500, body = error_json ''Failed to create task''\<rparr>, s1)
              | Some i \<Rightarrow>
                  (let s2 = s1\<lparr>tasks_table := tasks_table s1 @ [stored_row e task i]\<rparr>
                   in (\<lparr>status = 200, body = JObj [(''message'', JStr ''Task created successfully'')]\<rparr>,
                       broadcastTaskUpdate e task s2))))"

text \<open>
  \<^verbatim>\<open>
  func getTasks(c *fiber.Ctx) error {
      rows, err := dbConnection.Query(..., "SELECT id, title, assigned, status, created_at FROM tasks")
      if err != nil {
          return c.Status(500).JSON(fiber.Map{"error": "Failed to retrieve tasks"})
      }
      defer rows.Close()
      var tasks []Task
      for rows.Next() {
          var task Task
          err := rows.Scan(&task.ID, &task.Title, &task.Assigned, &task.Status, &task.CreatedAt)
          if err != nil { continue }
          tasks = append(tasks, task)
      }
      if len(tasks) == 0 { return c.JSON([]Task{}) }
      return c.JSON(tasks)
  }
  \<close>
  \<^verbatim>\<open>rows.Next()\<close> produces the rows of the table one by one and returns false at the
  end, or earlier when an error ends the reading; the handler does not look at
  \<^verbatim>\<open>rows.Err()\<close>, so it goes on with the rows it has. In pgx v4 a failing
  \<^verbatim>\<open>rows.Scan\<close> closes the rows: after the \<^verbatim>\<open>continue\<close> the next call of
  \<^verbatim>\<open>rows.Next()\<close> returns false, and the loop ends at the first row whose scan fails.
\<close>

definition rows_next :: "env \<Rightarrow> Task list \<Rightarrow> Task list" where
  "rows_next e rows = (case next_stops_after e of None \<Rightarrow> rows | Some n \<Rightarrow> take n rows)"

fun scan_rows :: "(Task \<Rightarrow> bool) \<Rightarrow> Task list \<Rightarrow> Task slice \<Rightarrow> Task slice" where
  "scan_rows sf [] tasks = tasks"
| "scan_rows sf (row # rows) tasks =
     (if sf row then tasks else scan_rows sf rows (append_slice tasks row))"

definition getTasks :: "env \<Rightarrow> server \<Rightarrow> response \<times> server" where
  "getTasks e s =
     (if query_fails e then (\<lparr>status = 500, body = error_json ''Failed to retrieve tasks''\<rparr>, s)
      else
        (let tasks = scan_rows (scan_fails e) (rows_next e (tasks_table s)) NilSlice
         in if len_slice tasks = 0 then (\<lparr>status = 200, body = json_of_tasks (Slice [])\<rparr>, s)
            else (\<lparr>status = 200, body = json_of_tasks tasks\<rparr>, s)))"

text \<open>
  The routes of \<^verbatim>\<open>main\<close> that read tasks, write tasks and open the real-time
  connection:
  \<^verbatim>\<open>
  app.Use(cors.New())
  app.Use(logger.New())
  setupWebSocket(app)            // app.Get("/ws", websocket.New(...))
  app.Post("/task", createTask)
  app.Get("/tasks", getTasks)
  \<close>
  A request carries its \<^verbatim>\<open>Authorization\<close> header, when it has one. No middleware and
  no handler reads it. For \<^verbatim>\<open>/ws\<close> the connection is upgraded (status 101) and the
  handler starts on the new connection.
\<close>

datatype route = PostTask | GetTasks | GetWs

record request =
  route :: route
  authorization :: "string option"
  payload :: body_in
  upgraded :: conn

definition serve :: "env \<Rightarrow> request \<Rightarrow> server \<Rightarrow> response \<times> server" where
  "serve e r s =
     (case route r of
        PostTask \<Rightarrow> createTask e (payload r) s
      | GetTasks \<Rightarrow> getTasks e s
      | GetWs \<Rightarrow> (\<lparr>status = 101, body = JNull\<rparr>, ws_open (upgraded r) s))"

section \<open>Observations on the effects\<close>

text \<open>The events a step added to the trace.\<close>

definition new_events :: "server \<Rightarrow> server \<Rightarrow> event list" where
  "new_events s s' = drop (length (trace s)) (trace s')"

text \<open>The writes that reached their peer, all the writes, the closed connections, the INSERTs.\<close>

fun deliveries :: "event list \<Rightarrow> (conn \<times> message) list" where
  "deliveries [] = []"
| "deliveries (EvWrite c m ok # evs) = (if ok then (c, m) # deliveries evs else deliveries evs)"
| "deliveries (EvExec a b c d # evs) = deliveries evs"
| "deliveries (EvClose c # evs) = deliveries evs"

fun attempts :: "event list \<Rightarrow> (conn \<times> message) list" where
  "attempts [] = []"
| "attempts (EvWrite c m ok # evs) = (c, m) # attempts evs"
| "attempts (EvExec a b c d # evs) = attempts evs"
| "attempts (EvClose c # evs) = attempts evs"

fun closes :: "event list \<Rightarrow> conn list" where
  "closes [] = []"
| "closes (EvClose c # evs) = c # closes evs"
| "closes (EvWrite c m ok # evs) = closes evs"
| "closes (EvExec a b c d # evs) = closes evs"

fun execs :: "event list \<Rightarrow> (string \<times> string \<times> string \<times> time) list" where
  "execs [] = []"
| "execs (EvExec a b c d # evs) = (a, b, c, d) # execs evs"
| "execs (EvWrite c m ok # evs) = execs evs"
| "execs (EvClose c # evs) = execs evs"

text \<open>What one turn of the loop does to the connection it visits.\<close>

definition visit :: "(conn \<Rightarrow> bool) \<Rightarrow> message \<Rightarrow> conn \<Rightarrow> event list" where
  "visit fails msg c = (if fails c then [EvWrite c msg False, EvClose c] else [EvWrite c msg True])"

text \<open>
  A sequence of registrations and removals, run on the registry, and the set of handles
  the specification calls registered after it: a handle is in the set when it was added
  and not removed since.
\<close>

datatype reg_op = Register conn | Unregister conn

fun apply_ops :: "reg_op list \<Rightarrow> (conn \<rightharpoonup> bool) \<Rightarrow> (conn \<rightharpoonup> bool)" where
  "apply_ops [] m = m"
| "apply_ops (Register c # ops) m = apply_ops ops (register c m)"
| "apply_ops (Unregister c # ops) m = apply_ops ops (unregister c m)"

fun spec_registered :: "reg_op list \<Rightarrow> conn set \<Rightarrow> conn set" where
  "spec_registered [] R = R"
| "spec_registered (Register c # ops) R = spec_registered ops (insert c R)"
| "spec_registered (Unregister c # ops) R = spec_registered ops (R - {c})"

text \<open>Concrete inputs for the examples.\<close>

definition ex_server :: server where
  "ex_server = \<lparr>clients = [1 \<mapsto> True, 2 \<mapsto> True, 3 \<mapsto> True], tasks_table = [], trace = []\<rparr>"

definition ex_env :: env where
  "ex_env = \<lparr>now = 1700000000, exec_result = Some 7, query_fails = False,
             next_stops_after = None, scan_fails = (\<lambda>t. False), write_fails = (\<lambda>c. c = 2), range_order = [2, 3, 1]\<rparr>"

definition ex_env_store_down :: env where
  "ex_env_store_down = ex_env\<lparr>exec_result := None\<rparr>"

definition ex_body :: body_in where
  "ex_body = Decoded \<lparr>id_field = None, title_field = Some ''X'', assigned_field = Some ''bob'',
                      status_field = Some ''open'', created_at_field = None\<rparr>"

definition ex_body_no_title :: body_in where
  "ex_body_no_title = Decoded \<lparr>id_field = None, title_field = None, assigned_field = None,
                               status_field = None, created_at_field = None\<rparr>"

definition ex_ops :: "reg_op list" where
  "ex_ops = [Register 1, Register 1, Register 2, Unregister 2, Register 3, Unregister 4]"

definition ex_ops_server :: server where
  "ex_ops_server = \<lparr>clients = apply_ops ex_ops Map.empty, tasks_table = [], trace = []\<rparr>"

definition ex_ops_env :: env where
  "ex_ops_env = ex_env\<lparr>range_order := [3, 1]\<rparr>"

definition ex_stored :: Task where
  "ex_stored = \<lparr>ID = 7, Title = ''X'', Assigned = ''bob'', Status = ''open'', CreatedAt = 1700000000\<rparr>"

definition ex_request_anon :: request where
  "ex_request_anon = \<lparr>route = PostTask, authorization = None, payload = ex_body, upgraded = 9\<rparr>"

definition ex_connect_anon :: request where
  "ex_connect_anon = \<lparr>route = GetWs, authorization = None, payload = Malformed, upgraded = 9\<rparr>"

definition ex_read_anon :: request where
  "ex_read_anon = \<lparr>route = GetTasks, authorization = None, payload = Malformed, upgraded = 9\<rparr>"

definition ex_server_after_failure :: server where
  "ex_server_after_failure = ws_message ex_env 1 1 ''hello'' (ws_open 2 ex_server)"

definition ex_env_later :: env where
  "ex_env_later = ex_env\<lparr>write_fails := (\<lambda>c. False), range_order := [3, 1]\<rparr>"

definition ex_task :: Task where
  "ex_task = \<lparr>ID = 0, Title = ''X'', Assigned = ''bob'', Status = ''open'', CreatedAt = 0\<rparr>"

section \<open>The loop over the registry\<close>

lemma write_all_distinct:
  "distinct order \<Longrightarrow>
   write_all fails msg order m =
     (m |` {c. \<not> (c \<in> set order \<and> fails c)},
      concat (map (visit fails msg) (filter (\<lambda>c. m c \<noteq> None) order)))"
proof (induction order arbitrary: m)
  case Nil
  show ?case by (simp add: restrict_map_def)
next
  case (Cons c cs)
  then have d: "distinct cs" and nin: "c \<notin> set cs" by simp_all
  let ?keep = "\<lambda>xs. {x. \<not> (x \<in> set xs \<and> fails x)}"
  let ?evs = "\<lambda>m. concat (map (visit fails msg) (filter (\<lambda>x. m x \<noteq> None) cs))"
  show ?case
  proof (cases "m c = None")
    case True
    have r: "m |` ?keep cs = m |` ?keep (c # cs)"
      using True by (auto simp: restrict_map_def fun_eq_iff)
    have "write_all fails msg (c # cs) m = write_all fails msg cs m"
      using True by simp
    also have "\<dots> = (m |` ?keep cs, ?evs m)"
      by (rule Cons.IH [OF d])
    also have "\<dots> = (m |` ?keep (c # cs), concat (map (visit fails msg) (filter (\<lambda>x. m x \<noteq> None) (c # cs))))"
      using True by (simp only: r) simp
    finally show ?thesis .
  next
    case False
    then obtain y where some: "m c = Some y" by auto
    show ?thesis
    proof (cases "fails c")
      case True
      have f: "filter (\<lambda>x. (unregister c m) x \<noteq> None) cs = filter (\<lambda>x. m x \<noteq> None) cs"
        using nin by (intro filter_cong) (auto simp: unregister_def)
      have r: "unregister c m |` ?keep cs = m |` ?keep (c # cs)"
        using True by (auto simp: restrict_map_def fun_eq_iff unregister_def)
      have ih: "write_all fails msg cs (unregister c m) = (m |` ?keep (c # cs), ?evs m)"
        using Cons.IH [OF d, of "unregister c m"] by (simp only: f r)
      have "write_all fails msg (c # cs) m =
              (m |` ?keep (c # cs), EvWrite c msg False # EvClose c # ?evs m)"
        using some True by (simp add: ih del: set_simps)
      also have "EvWrite c msg False # EvClose c # ?evs m =
                 concat (map (visit fails msg) (filter (\<lambda>x. m x \<noteq> None) (c # cs)))"
        using some True by (simp add: visit_def)
      finally show ?thesis .
    next
      case nf: False
      have r: "m |` ?keep cs = m |` ?keep (c # cs)"
        using nf by (auto simp: restrict_map_def fun_eq_iff)
      have ih: "write_all fails msg cs m = (m |` ?keep (c # cs), ?evs m)"
        using Cons.IH [OF d, of m] by (simp only: r)
      have "write_all fails msg (c # cs) m = (m |` ?keep (c # cs), EvWrite c msg True # ?evs m)"
        using some nf by (simp add: ih del: set_simps)
      also have "EvWrite c msg True # ?evs m =
                 concat (map (visit fails msg) (filter (\<lambda>x. m x \<noteq> None) (c # cs)))"
        using some nf by (simp add: visit_def)
      finally show ?thesis .
    qed
  qed
qed

lemma write_all_range:
  assumes "go_range m order"
  shows "write_all fails msg order m =
           (m |` {c. \<not> fails c}, concat (map (visit fails msg) order))"
proof -
  from assms have d: "distinct order" and s: "set order = dom m"
    by (simp_all add: go_range_def)
  have f: "filter (\<lambda>c. m c \<noteq> None) order = order"
    using s by (auto simp: filter_id_conv)
  have r: "m |` {c. \<not> (c \<in> set order \<and> fails c)} = m |` {c. \<not> fails c}"
    using s by (auto simp: restrict_map_def fun_eq_iff)
  show ?thesis
    using write_all_distinct [OF d, of fails msg m] f r by simp
qed

lemma deliveries_visits:
  "deliveries (concat (map (visit fails msg) cs)) = map (\<lambda>c. (c, msg)) (filter (\<lambda>c. \<not> fails c) cs)"
  by (induction cs) (simp_all add: visit_def)

lemma attempts_visits:
  "attempts (concat (map (visit fails msg) cs)) = map (\<lambda>c. (c, msg)) cs"
  by (induction cs) (simp_all add: visit_def)

lemma closes_visits:
  "closes (concat (map (visit fails msg) cs)) = filter fails cs"
  by (induction cs) (simp_all add: visit_def)

lemma execs_visits:
  "execs (concat (map (visit fails msg) cs)) = []"
  by (induction cs) (simp_all add: visit_def)

lemma new_events_append:
  "trace s' = trace s @ evs \<Longrightarrow> new_events s s' = evs"
  by (simp add: new_events_def)

lemma broadcast_range:
  assumes "go_range (clients s) (range_order e)"
  shows "broadcastTaskUpdate e task s =
           s\<lparr>clients := clients s |` {c. \<not> write_fails e c},
             trace := trace s @ concat (map (visit (write_fails e) (JSONMessage (json_of_task task))) (range_order e))\<rparr>"
  by (simp add: broadcastTaskUpdate_def write_all_range [OF assms])

lemma ws_message_range:
  assumes "go_range (clients s) (range_order e)"
  shows "ws_message e c messageType msg s =
           s\<lparr>clients := clients s |` {c. \<not> write_fails e c},
             trace := trace s @ concat (map (visit (write_fails e) (RawMessage messageType msg)) (range_order e))\<rparr>"
  by (simp add: ws_message_def write_all_range [OF assms])

section \<open>The registry\<close>

lemma dom_apply_ops: "dom (apply_ops ops m) = spec_registered ops (dom m)"
proof (induction ops arbitrary: m)
  case Nil
  show ?case by simp
next
  case (Cons op ops)
  show ?case
  proof (cases op)
    case (Register c)
    have "dom (register c m) = insert c (dom m)" by (simp add: register_def)
    with Register Cons.IH [of "register c m"] show ?thesis by simp
  next
    case (Unregister c)
    have "dom (unregister c m) = dom m - {c}" by (simp add: unregister_def)
    with Unregister Cons.IH [of "unregister c m"] show ?thesis by simp
  qed
qed

lemma apply_ops_append: "apply_ops (xs @ ys) m = apply_ops ys (apply_ops xs m)"
proof (induction xs arbitrary: m)
  case Nil
  show ?case by simp
next
  case (Cons op xs)
  then show ?case by (cases op) simp_all
qed

lemma count_list_distinct:
  "distinct xs \<Longrightarrow> count_list xs x = (if x \<in> set xs then 1 else 0)"
  by (induction xs) auto

text \<open>
  Claim C7. Removing a handle with \<^verbatim>\<open>delete(clients, c)\<close> twice leaves the registry as
  removing it once does, also through the deferred function of the handler, and removing
  a handle that is not in the registry leaves the registry as it is. The removal has no
  error result.
\<close>

theorem unregister_idempotent:
  "unregister c (unregister c m) = unregister c m \<and>
   clients (ws_close c (ws_close c s)) = clients (ws_close c s) \<and>
   (m c = None \<longrightarrow> unregister c m = m)"
  by (auto simp: unregister_def ws_close_def)

theorem unregister_idempotent_witness:
  "clients ex_server 5 = None \<and> unregister 5 (clients ex_server) = clients ex_server \<and>
   unregister 2 (unregister 2 (clients ex_server)) = [1 \<mapsto> True, 3 \<mapsto> True]"
proof -
  have a: "clients ex_server 5 = None" by (simp add: ex_server_def)
  have b: "unregister 2 (clients ex_server) = [1 \<mapsto> True, 3 \<mapsto> True]"
    by (auto simp: unregister_def ex_server_def fun_eq_iff)
  from unregister_idempotent [of 5 "clients ex_server" ex_server] a
  have "unregister 5 (clients ex_server) = clients ex_server" by blast
  moreover from unregister_idempotent [of 2 "clients ex_server" ex_server] b
  have "unregister 2 (unregister 2 (clients ex_server)) = [1 \<mapsto> True, 3 \<mapsto> True]" by simp
  ultimately show ?thesis using a by blast
qed

text \<open>
  Claim C6. After any sequence of registrations and removals on the empty registry, the
  keys of \<^verbatim>\<open>clients\<close> are exactly the handles registered and not removed since; the
  loop of the broadcast visits exactly these, each once; it writes the event once to
  each of them and to no other handle; and registering a handle a second time changes
  nothing.
\<close>

theorem snapshot_is_registered_set:
  "clients s = apply_ops ops Map.empty \<Longrightarrow> go_range (clients s) (range_order e) \<Longrightarrow>
   dom (clients s) = spec_registered ops {} \<and>
   set (range_order e) = spec_registered ops {} \<and> distinct (range_order e) \<and>
   (\<forall>c. count_list (map fst (attempts (new_events s (broadcastTaskUpdate e task s)))) c =
          (if c \<in> spec_registered ops {} then 1 else 0)) \<and>
   apply_ops (ops @ [Register h, Register h]) Map.empty = apply_ops (ops @ [Register h]) Map.empty"
proof -
  assume cl: "clients s = apply_ops ops Map.empty" and gr: "go_range (clients s) (range_order e)"
  have d: "dom (clients s) = spec_registered ops {}"
    using dom_apply_ops [of ops Map.empty] cl by simp
  from gr have di: "distinct (range_order e)" and se: "set (range_order e) = dom (clients s)"
    by (simp_all add: go_range_def)
  have ne: "new_events s (broadcastTaskUpdate e task s) =
              concat (map (visit (write_fails e) (JSONMessage (json_of_task task))) (range_order e))"
    by (rule new_events_append) (simp add: broadcast_range [OF gr])
  have at: "map fst (attempts (new_events s (broadcastTaskUpdate e task s))) = range_order e"
    by (simp add: ne attempts_visits comp_def)
  have cnt: "\<forall>c. count_list (map fst (attempts (new_events s (broadcastTaskUpdate e task s)))) c =
          (if c \<in> spec_registered ops {} then 1 else 0)"
    using count_list_distinct [OF di] se d by (simp add: at)
  have twice: "apply_ops (ops @ [Register h, Register h]) Map.empty =
               apply_ops (ops @ [Register h]) Map.empty"
    by (simp add: apply_ops_append register_def)
  from d se di cnt twice show ?thesis by simp
qed

theorem snapshot_is_registered_set_witness:
  "clients ex_ops_server = apply_ops ex_ops Map.empty \<and>
   go_range (clients ex_ops_server) (range_order ex_ops_env) \<and>
   dom (clients ex_ops_server) = {1, 3} \<and>
   count_list (map fst (attempts (new_events ex_ops_server
      (broadcastTaskUpdate ex_ops_env ex_task ex_ops_server)))) 1 = 1 \<and>
   count_list (map fst (attempts (new_events ex_ops_server
      (broadcastTaskUpdate ex_ops_env ex_task ex_ops_server)))) 2 = 0"
proof -
  have cl: "clients ex_ops_server = apply_ops ex_ops Map.empty"
    by (simp add: ex_ops_server_def)
  have dm: "dom (apply_ops ex_ops Map.empty) = {1, 3}"
    by (auto simp: ex_ops_def register_def unregister_def)
  have gr: "go_range (clients ex_ops_server) (range_order ex_ops_env)"
    using dm by (auto simp: go_range_def cl ex_ops_env_def)
  have sp: "spec_registered ex_ops {} = {1, 3}"
    by (auto simp: ex_ops_def)
  from snapshot_is_registered_set [OF cl gr, of ex_task 9] sp cl dm gr
  show ?thesis by simp
qed

section \<open>The broadcast\<close>

lemma card_failing:
  assumes "distinct order"
  shows "card {c \<in> set order. fails c} = length (filter fails order)"
proof -
  have eq: "{c \<in> set order. fails c} = set (filter fails order)" by auto
  have "distinct (filter fails order)" using assms by simp
  then have "card (set (filter fails order)) = length (filter fails order)"
    by (rule distinct_card)
  then show ?thesis by (simp only: eq)
qed

lemma length_passing:
  "length (filter (\<lambda>c. \<not> fails c) order) = length order - length (filter fails order)"
  using sum_length_filter_compl [of fails order] by simp

lemma createTask_ok_response:
  "BodyParser b = Some t \<Longrightarrow> exec_result e = Some i \<Longrightarrow>
   fst (createTask e b s) =
     \<lparr>status = 200, body = JObj [(''message'', JStr ''Task created successfully'')]\<rparr>"
  by (simp add: createTask_def Let_def)

text \<open>
  Claim C3. A broadcast over a registry of \<open>N\<close> handles, \<open>K\<close> of them with a failing
  write, in any order of visit: the event reaches exactly the \<open>N - K\<close> handles whose
  write does not fail, each once, also those visited after a failing one; exactly the
  \<open>K\<close> failing handles leave the registry; the function has no error result, and
  \<^verbatim>\<open>createTask\<close> answers with status 200 whatever the writes did.
\<close>

theorem broadcast_partial_failure:
  "go_range (clients s) (range_order e) \<Longrightarrow>
   (let s' = broadcastTaskUpdate e task s;
        sent = deliveries (new_events s s');
        N = card (dom (clients s));
        K = card {c \<in> dom (clients s). write_fails e c}
    in trace s' = trace s @ new_events s s' \<and>
       sent = map (\<lambda>c. (c, JSONMessage (json_of_task task)))
                (filter (\<lambda>c. \<not> write_fails e c) (range_order e)) \<and>
       set (map fst sent) = {c \<in> dom (clients s). \<not> write_fails e c} \<and>
       distinct (map fst sent) \<and>
       length sent = N - K \<and>
       (\<forall>xs c ys d. range_order e = xs @ c # ys \<and> write_fails e c \<and> d \<in> set ys \<and> \<not> write_fails e d
          \<longrightarrow> (d, JSONMessage (json_of_task task)) \<in> set sent) \<and>
       clients s' = clients s |` {c. \<not> write_fails e c} \<and>
       dom (clients s) - dom (clients s') = {c \<in> dom (clients s). write_fails e c} \<and>
       card (dom (clients s) - dom (clients s')) = K \<and>
       set (closes (new_events s s')) = {c \<in> dom (clients s). write_fails e c} \<and>
       tasks_table s' = tasks_table s \<and>
       (\<forall>b t i. BodyParser b = Some t \<and> exec_result e = Some i
          \<longrightarrow> status (fst (createTask e b s)) = 200))"
proof -
  assume gr: "go_range (clients s) (range_order e)"
  let ?msg = "JSONMessage (json_of_task task)"
  let ?s' = "broadcastTaskUpdate e task s"
  let ?evs = "concat (map (visit (write_fails e) ?msg) (range_order e))"
  let ?sent = "deliveries (new_events s ?s')"
  from gr have di: "distinct (range_order e)" and se: "set (range_order e) = dom (clients s)"
    by (simp_all add: go_range_def)
  have tr: "trace ?s' = trace s @ ?evs"
    by (simp add: broadcast_range [OF gr])
  have ne: "new_events s ?s' = ?evs"
    using tr by (rule new_events_append)
  have c1: "trace ?s' = trace s @ new_events s ?s'"
    by (simp only: ne tr)
  have c2: "?sent = map (\<lambda>c. (c, ?msg)) (filter (\<lambda>c. \<not> write_fails e c) (range_order e))"
    by (simp only: ne deliveries_visits)
  have fs: "map fst ?sent = filter (\<lambda>c. \<not> write_fails e c) (range_order e)"
    by (simp add: c2 comp_def)
  have c3: "set (map fst ?sent) = {c \<in> dom (clients s). \<not> write_fails e c}"
    using se by (auto simp: fs)
  have c4: "distinct (map fst ?sent)"
    using di by (simp add: fs)
  have n: "card (dom (clients s)) = length (range_order e)"
    using di se distinct_card [of "range_order e"] by simp
  have k: "card {c \<in> dom (clients s). write_fails e c} = length (filter (write_fails e) (range_order e))"
    using card_failing [OF di, of "write_fails e"] se by simp
  have "length ?sent = length (filter (\<lambda>c. \<not> write_fails e c) (range_order e))"
    by (simp add: c2)
  then have c5: "length ?sent = card (dom (clients s)) - card {c \<in> dom (clients s). write_fails e c}"
    by (simp only: n k length_passing)
  have c6: "\<forall>xs c ys d. range_order e = xs @ c # ys \<and> write_fails e c \<and> d \<in> set ys \<and> \<not> write_fails e d
          \<longrightarrow> (d, ?msg) \<in> set ?sent"
  proof (intro allI impI)
    fix xs c ys d
    assume a: "range_order e = xs @ c # ys \<and> write_fails e c \<and> d \<in> set ys \<and> \<not> write_fails e d"
    then have "d \<in> set (filter (\<lambda>c. \<not> write_fails e c) (range_order e))" by simp
    then show "(d, ?msg) \<in> set ?sent" by (auto simp: c2)
  qed
  have c7: "clients ?s' = clients s |` {c. \<not> write_fails e c}"
    by (simp add: broadcast_range [OF gr])
  have c8: "dom (clients s) - dom (clients ?s') = {c \<in> dom (clients s). write_fails e c}"
    by (auto simp: c7)
  have c9: "card (dom (clients s) - dom (clients ?s')) = card {c \<in> dom (clients s). write_fails e c}"
    by (simp only: c8)
  have c10: "set (closes (new_events s ?s')) = {c \<in> dom (clients s). write_fails e c}"
    using se by (auto simp: ne closes_visits)
  have c11: "tasks_table ?s' = tasks_table s"
    by (simp add: broadcast_range [OF gr])
  have c12: "\<forall>b t i. BodyParser b = Some t \<and> exec_result e = Some i
          \<longrightarrow> status (fst (createTask e b s)) = 200"
    by (auto simp: createTask_ok_response)
  from c1 c2 c3 c4 c5 c6 c7 c8 c9 c10 c11 c12 show ?thesis
    unfolding Let_def by blast
qed

lemma ex_go_range: "go_range (clients ex_server) (range_order ex_env)"
  by (auto simp: go_range_def ex_server_def ex_env_def)

lemma ex_body_parsed: "BodyParser ex_body = Some ex_task"
  by (simp add: ex_body_def ex_task_def)

theorem broadcast_partial_failure_witness:
  "go_range (clients ex_server) (range_order ex_env) \<and>
   range_order ex_env = [2, 3, 1] \<and> write_fails ex_env 2 \<and>
   map fst (deliveries (new_events ex_server (broadcastTaskUpdate ex_env ex_task ex_server))) = [3, 1] \<and>
   dom (clients (broadcastTaskUpdate ex_env ex_task ex_server)) = {1, 3} \<and>
   BodyParser ex_body = Some ex_task \<and> exec_result ex_env = Some 7 \<and>
   status (fst (createTask ex_env ex_body ex_server)) = 200"
proof -
  note t = broadcast_partial_failure [OF ex_go_range, of ex_task, unfolded Let_def]
  from t have "deliveries (new_events ex_server (broadcastTaskUpdate ex_env ex_task ex_server)) =
      map (\<lambda>c. (c, JSONMessage (json_of_task ex_task)))
        (filter (\<lambda>c. \<not> write_fails ex_env c) (range_order ex_env))"
    by blast
  then have a: "map fst (deliveries (new_events ex_server (broadcastTaskUpdate ex_env ex_task ex_server))) = [3, 1]"
    by (simp add: ex_env_def)
  from t have "clients (broadcastTaskUpdate ex_env ex_task ex_server) =
      clients ex_server |` {c. \<not> write_fails ex_env c}"
    by blast
  then have b: "dom (clients (broadcastTaskUpdate ex_env ex_task ex_server)) = {1, 3}"
    by (auto simp: ex_server_def ex_env_def)
  have x: "exec_result ex_env = Some 7" by (simp add: ex_env_def)
  from t have "\<forall>b t i. BodyParser b = Some t \<and> exec_result ex_env = Some i
          \<longrightarrow> status (fst (createTask ex_env b ex_server)) = 200"
    by blast
  with ex_body_parsed x have c: "status (fst (createTask ex_env ex_body ex_server)) = 200"
    by blast
  have o: "range_order ex_env = [2, 3, 1] \<and> write_fails ex_env 2" by (simp add: ex_env_def)
  from ex_go_range a b c x o ex_body_parsed show ?thesis by blast
qed

section \<open>Creating a task\<close>

lemma write_all_no_exec: "execs (snd (write_all fails msg order m)) = []"
proof (induction order arbitrary: m)
  case Nil
  show ?case by simp
next
  case (Cons c cs)
  from Cons.IH [of m] Cons.IH [of "unregister c m"] show ?case
    by (cases "write_all fails msg cs m"; cases "write_all fails msg cs (unregister c m)") simp
qed

lemma createTask_ok_state:
  assumes "BodyParser b = Some t" and "exec_result e = Some i"
  shows "snd (createTask e b s) =
           broadcastTaskUpdate e t
             (s\<lparr>trace := trace s @ [EvExec (Title t) (Assigned t) (Status t) (now e)],
                tasks_table := tasks_table s @ [stored_row e t i]\<rparr>)"
  using assms by (simp add: createTask_def Let_def)

lemma createTask_ok_trace:
  assumes "BodyParser b = Some t" and "exec_result e = Some i"
  shows "new_events s (snd (createTask e b s)) =
           EvExec (Title t) (Assigned t) (Status t) (now e) #
           snd (write_all (write_fails e) (JSONMessage (json_of_task t)) (range_order e) (clients s))"
  by (rule new_events_append)
     (simp add: createTask_ok_state [OF assms] broadcastTaskUpdate_def split: prod.splits)

lemma createTask_trace_prefix:
  "trace (snd (createTask e b s)) = trace s @ new_events s (snd (createTask e b s))"
proof -
  have "\<exists>evs. trace (snd (createTask e b s)) = trace s @ evs"
    by (cases "BodyParser b"; cases "exec_result e")
       (simp_all add: createTask_def Let_def broadcastTaskUpdate_def split: prod.splits)
  then show ?thesis by (auto simp: new_events_def)
qed

lemma createTask_ok_table:
  assumes "BodyParser b = Some t" and "exec_result e = Some i"
  shows "tasks_table (snd (createTask e b s)) = tasks_table s @ [stored_row e t i]"
  by (simp add: createTask_ok_state [OF assms] broadcastTaskUpdate_def split: prod.splits)

text \<open>
  Claim C1, as the code has it. When the body decodes and the INSERT succeeds,
  \<^verbatim>\<open>createTask\<close> answers with status 200 and a message (it returns no Task), the table
  has one new row, and the broadcast runs once after the INSERT: one write for each
  registered handle, all carrying the same Task event, whose title, assignee and status
  are those of the stored row.
\<close>

theorem createTask_success:
  "BodyParser b = Some t \<Longrightarrow> exec_result e = Some i \<Longrightarrow> go_range (clients s) (range_order e) \<Longrightarrow>
   fst (createTask e b s) =
     \<lparr>status = 200, body = JObj [(''message'', JStr ''Task created successfully'')]\<rparr> \<and>
   tasks_table (snd (createTask e b s)) = tasks_table s @ [stored_row e t i] \<and>
   trace (snd (createTask e b s)) = trace s @ new_events s (snd (createTask e b s)) \<and>
   execs (new_events s (snd (createTask e b s))) = [(Title t, Assigned t, Status t, now e)] \<and>
   (\<exists>ev evs.
      new_events s (snd (createTask e b s)) =
        EvExec (Title (stored_row e t i)) (Assigned (stored_row e t i)) (Status (stored_row e t i))
          (CreatedAt (stored_row e t i)) # evs \<and>
      execs evs = [] \<and>
      attempts evs = map (\<lambda>c. (c, JSONMessage (json_of_task ev))) (range_order e) \<and>
      Title ev = Title (stored_row e t i) \<and>
      Assigned ev = Assigned (stored_row e t i) \<and>
      Status ev = Status (stored_row e t i))"
proof -
  assume bp: "BodyParser b = Some t" and ex: "exec_result e = Some i"
    and gr: "go_range (clients s) (range_order e)"
  let ?msg = "JSONMessage (json_of_task t)"
  let ?evs = "concat (map (visit (write_fails e) ?msg) (range_order e))"
  have ne: "new_events s (snd (createTask e b s)) =
              EvExec (Title t) (Assigned t) (Status t) (now e) # ?evs"
    by (simp add: createTask_ok_trace [OF bp ex] write_all_range [OF gr])
  have a: "execs (new_events s (snd (createTask e b s))) = [(Title t, Assigned t, Status t, now e)]"
    by (simp add: ne execs_visits)
  have ne': "new_events s (snd (createTask e b s)) =
        EvExec (Title (stored_row e t i)) (Assigned (stored_row e t i)) (Status (stored_row e t i))
          (CreatedAt (stored_row e t i)) # ?evs"
    by (simp add: ne stored_row_def)
  have b: "attempts ?evs = map (\<lambda>c. (c, ?msg)) (range_order e)"
    by (simp only: attempts_visits)
  have x: "execs ?evs = []"
    by (simp only: execs_visits)
  have c: "Title t = Title (stored_row e t i) \<and> Assigned t = Assigned (stored_row e t i) \<and>
           Status t = Status (stored_row e t i)"
    by (simp add: stored_row_def)
  from ne' x b c have d: "\<exists>ev evs.
      new_events s (snd (createTask e b s)) =
        EvExec (Title (stored_row e t i)) (Assigned (stored_row e t i)) (Status (stored_row e t i))
          (CreatedAt (stored_row e t i)) # evs \<and>
      execs evs = [] \<and>
      attempts evs = map (\<lambda>c. (c, JSONMessage (json_of_task ev))) (range_order e) \<and>
      Title ev = Title (stored_row e t i) \<and>
      Assigned ev = Assigned (stored_row e t i) \<and>
      Status ev = Status (stored_row e t i)"
    by blast
  from createTask_ok_response [OF bp ex] createTask_ok_table [OF bp ex]
    createTask_trace_prefix [of e b s] a d
  show ?thesis by blast
qed

theorem createTask_success_witness:
  "BodyParser ex_body = Some ex_task \<and> exec_result ex_env = Some 7 \<and>
   go_range (clients ex_server) (range_order ex_env) \<and>
   status (fst (createTask ex_env ex_body ex_server)) = 200 \<and>
   tasks_table (snd (createTask ex_env ex_body ex_server)) = [ex_stored] \<and>
   execs (new_events ex_server (snd (createTask ex_env ex_body ex_server))) =
     [(''X'', ''bob'', ''open'', 1700000000)]"
proof -
  have x: "exec_result ex_env = Some 7" by (simp add: ex_env_def)
  have r: "stored_row ex_env ex_task 7 = ex_stored"
    by (simp add: stored_row_def ex_env_def ex_task_def ex_stored_def)
  from createTask_success [OF ex_body_parsed x ex_go_range] r
  have "status (fst (createTask ex_env ex_body ex_server)) = 200 \<and>
        tasks_table (snd (createTask ex_env ex_body ex_server)) = [ex_stored] \<and>
        execs (new_events ex_server (snd (createTask ex_env ex_body ex_server))) =
          [(''X'', ''bob'', ''open'', 1700000000)]"
    by (simp add: ex_server_def ex_env_def ex_task_def)
  with ex_body_parsed x ex_go_range show ?thesis by blast
qed

text \<open>
  Against claim C1 as stated: the database gives the row the identifier 7 and the INSERT
  gives it the time of the call, while the event that is broadcast carries the identifier
  and the time of the request body, here both zero; and the answer to the caller is the
  message object, not the Task.
\<close>

theorem createTask_event_counterexample:
  "BodyParser ex_body = Some ex_task \<and> exec_result ex_env = Some 7 \<and>
   tasks_table (snd (createTask ex_env ex_body ex_server)) = [ex_stored] \<and>
   deliveries (new_events ex_server (snd (createTask ex_env ex_body ex_server))) =
     [(3, JSONMessage (json_of_task ex_task)), (1, JSONMessage (json_of_task ex_task))] \<and>
   ID ex_task \<noteq> ID ex_stored \<and> CreatedAt ex_task \<noteq> CreatedAt ex_stored \<and>
   json_of_task ex_task \<noteq> json_of_task ex_stored \<and>
   body (fst (createTask ex_env ex_body ex_server)) \<noteq> json_of_task ex_stored"
proof -
  have x: "exec_result ex_env = Some 7" by (simp add: ex_env_def)
  have r: "stored_row ex_env ex_task 7 = ex_stored"
    by (simp add: stored_row_def ex_env_def ex_task_def ex_stored_def)
  have tb: "tasks_table (snd (createTask ex_env ex_body ex_server)) = [ex_stored]"
    using createTask_ok_table [OF ex_body_parsed x, of ex_server] r by (simp add: ex_server_def)
  have ne: "new_events ex_server (snd (createTask ex_env ex_body ex_server)) =
              EvExec (Title ex_task) (Assigned ex_task) (Status ex_task) (now ex_env) #
              concat (map (visit (write_fails ex_env) (JSONMessage (json_of_task ex_task))) (range_order ex_env))"
    by (simp add: createTask_ok_trace [OF ex_body_parsed x] write_all_range [OF ex_go_range])
  have dl: "deliveries (new_events ex_server (snd (createTask ex_env ex_body ex_server))) =
     [(3, JSONMessage (json_of_task ex_task)), (1, JSONMessage (json_of_task ex_task))]"
    by (simp add: ne deliveries_visits) (simp add: ex_env_def)
  have df: "ID ex_task \<noteq> ID ex_stored \<and> CreatedAt ex_task \<noteq> CreatedAt ex_stored \<and>
            json_of_task ex_task \<noteq> json_of_task ex_stored"
    by (simp add: ex_task_def ex_stored_def json_of_task_def)
  have bd: "body (fst (createTask ex_env ex_body ex_server)) \<noteq> json_of_task ex_stored"
    by (simp add: createTask_ok_response [OF ex_body_parsed x] json_of_task_def)
  from ex_body_parsed x tb dl df bd show ?thesis by blast
qed

text \<open>
  Claim C2, as the code has it. A body that \<^verbatim>\<open>BodyParser\<close> cannot decode is answered
  with status 400 and the state is untouched: no INSERT, no write on any connection. A
  body that decodes is not rejected, whichever fields it lacks.
\<close>

theorem createTask_invalid_body:
  "BodyParser b = None \<Longrightarrow>
   createTask e b s = (\<lparr>status = 400, body = error_json ''Invalid request''\<rparr>, s) \<and>
   new_events s (snd (createTask e b s)) = [] \<and>
   status (fst (createTask e (Decoded f) s)) \<noteq> 400"
  by (cases "exec_result e") (simp_all add: createTask_def new_events_def Let_def)

theorem createTask_invalid_body_witness:
  "BodyParser Malformed = None \<and>
   createTask ex_env Malformed ex_server =
     (\<lparr>status = 400, body = JObj [(''error'', JStr ''Invalid request'')]\<rparr>, ex_server)"
  using createTask_invalid_body [of Malformed ex_env ex_server]
  by (simp add: error_json_def)

text \<open>
  Against claim C2 as stated: a body with no title, no assignee and no status decodes to
  the zero Task; the row is inserted with empty strings, the event is broadcast, and the
  answer is status 200.
\<close>

theorem createTask_missing_fields_counterexample:
  "ex_body_no_title =
     Decoded \<lparr>id_field = None, title_field = None, assigned_field = None,
              status_field = None, created_at_field = None\<rparr> \<and>
   status (fst (createTask ex_env ex_body_no_title ex_server)) = 200 \<and>
   tasks_table (snd (createTask ex_env ex_body_no_title ex_server)) =
     [\<lparr>ID = 7, Title = [], Assigned = [], Status = [], CreatedAt = 1700000000\<rparr>] \<and>
   map fst (deliveries (new_events ex_server (snd (createTask ex_env ex_body_no_title ex_server)))) = [3, 1]"
proof -
  let ?t = "\<lparr>ID = 0, Title = [], Assigned = [], Status = [], CreatedAt = 0\<rparr>"
  have bp: "BodyParser ex_body_no_title = Some ?t" by (simp add: ex_body_no_title_def)
  have x: "exec_result ex_env = Some 7" by (simp add: ex_env_def)
  have st: "status (fst (createTask ex_env ex_body_no_title ex_server)) = 200"
    by (simp add: createTask_ok_response [OF bp x])
  have tb: "tasks_table (snd (createTask ex_env ex_body_no_title ex_server)) =
     [\<lparr>ID = 7, Title = [], Assigned = [], Status = [], CreatedAt = 1700000000\<rparr>]"
    using createTask_ok_table [OF bp x, of ex_server]
    by (simp add: stored_row_def) (simp add: ex_server_def ex_env_def)
  have ne: "new_events ex_server (snd (createTask ex_env ex_body_no_title ex_server)) =
              EvExec (Title ?t) (Assigned ?t) (Status ?t) (now ex_env) #
              concat (map (visit (write_fails ex_env) (JSONMessage (json_of_task ?t))) (range_order ex_env))"
    by (simp only: createTask_ok_trace [OF bp x] write_all_range [OF ex_go_range] snd_conv)
  have dl: "map fst (deliveries (new_events ex_server (snd (createTask ex_env ex_body_no_title ex_server)))) = [3, 1]"
    by (simp only: ne deliveries.simps deliveries_visits) (simp add: ex_env_def)
  from st tb dl show ?thesis by (simp add: ex_body_no_title_def)
qed

text \<open>
  Claim C4. When the INSERT fails, \<^verbatim>\<open>createTask\<close> answers with status 500, has called
  \<^verbatim>\<open>Exec\<close> once and written on no connection, and leaves registry and table as they
  were. When the INSERT succeeds, the call of \<^verbatim>\<open>Exec\<close> is the first effect, and it is
  the only call of \<^verbatim>\<open>Exec\<close>: every write of the broadcast comes after it.
\<close>

theorem createTask_store_failure:
  "BodyParser b = Some t \<Longrightarrow>
   trace (snd (createTask e b s)) = trace s @ new_events s (snd (createTask e b s)) \<and>
   (exec_result e = None \<longrightarrow>
      fst (createTask e b s) = \<lparr>status = 500, body = error_json ''Failed to create task''\<rparr> \<and>
      new_events s (snd (createTask e b s)) = [EvExec (Title t) (Assigned t) (Status t) (now e)] \<and>
      attempts (new_events s (snd (createTask e b s))) = [] \<and>
      clients (snd (createTask e b s)) = clients s \<and>
      tasks_table (snd (createTask e b s)) = tasks_table s) \<and>
   (\<forall>i. exec_result e = Some i \<longrightarrow>
      (\<exists>evs. new_events s (snd (createTask e b s)) =
                EvExec (Title t) (Assigned t) (Status t) (now e) # evs \<and> execs evs = []))"
proof -
  assume bp: "BodyParser b = Some t"
  have down: "exec_result e = None \<longrightarrow>
      fst (createTask e b s) = \<lparr>status = 500, body = error_json ''Failed to create task''\<rparr> \<and>
      new_events s (snd (createTask e b s)) = [EvExec (Title t) (Assigned t) (Status t) (now e)] \<and>
      attempts (new_events s (snd (createTask e b s))) = [] \<and>
      clients (snd (createTask e b s)) = clients s \<and>
      tasks_table (snd (createTask e b s)) = tasks_table s"
    using bp by (simp add: createTask_def new_events_def Let_def)
  have up: "\<forall>i. exec_result e = Some i \<longrightarrow>
      (\<exists>evs. new_events s (snd (createTask e b s)) =
                EvExec (Title t) (Assigned t) (Status t) (now e) # evs \<and> execs evs = [])"
  proof (intro allI impI)
    fix i assume ex: "exec_result e = Some i"
    from createTask_ok_trace [OF bp ex, of s] write_all_no_exec
    show "\<exists>evs. new_events s (snd (createTask e b s)) =
                EvExec (Title t) (Assigned t) (Status t) (now e) # evs \<and> execs evs = []"
      by blast
  qed
  from createTask_trace_prefix [of e b s] down up show ?thesis by blast
qed

theorem createTask_store_failure_witness:
  "BodyParser ex_body = Some ex_task \<and> exec_result ex_env_store_down = None \<and>
   dom (clients ex_server) = {1, 2, 3} \<and>
   status (fst (createTask ex_env_store_down ex_body ex_server)) = 500 \<and>
   new_events ex_server (snd (createTask ex_env_store_down ex_body ex_server)) =
     [EvExec ''X'' ''bob'' ''open'' 1700000000] \<and>
   tasks_table (snd (createTask ex_env_store_down ex_body ex_server)) = [] \<and>
   exec_result ex_env = Some 7 \<and>
   execs (tl (new_events ex_server (snd (createTask ex_env ex_body ex_server)))) = []"
proof -
  have x: "exec_result ex_env_store_down = None" by (simp add: ex_env_store_down_def)
  have y: "exec_result ex_env = Some 7" by (simp add: ex_env_def)
  have d: "dom (clients ex_server) = {1, 2, 3}" by (auto simp: ex_server_def)
  from createTask_store_failure [OF ex_body_parsed, of ex_env_store_down ex_server] x
  have a: "status (fst (createTask ex_env_store_down ex_body ex_server)) = 500 \<and>
   new_events ex_server (snd (createTask ex_env_store_down ex_body ex_server)) =
     [EvExec ''X'' ''bob'' ''open'' 1700000000] \<and>
   tasks_table (snd (createTask ex_env_store_down ex_body ex_server)) = []"
    by (simp add: ex_task_def ex_env_store_down_def ex_env_def ex_server_def)
  from createTask_store_failure [OF ex_body_parsed, of ex_env ex_server] y
  have b: "execs (tl (new_events ex_server (snd (createTask ex_env ex_body ex_server)))) = []"
    by auto
  from ex_body_parsed x y d a b show ?thesis by blast
qed

section \<open>The routes and the credential\<close>

text \<open>
  No route looks at the \<^verbatim>\<open>Authorization\<close> header: whatever credential a request
  carries, the answer and the effect on the state are those of the same request with any
  other credential, and the status is never 401.
\<close>

lemma serve_authorization_unread:
  "serve e (r\<lparr>authorization := a\<rparr>) s = serve e r s \<and> status (fst (serve e r s)) \<noteq> 401"
proof -
  have a: "serve e (r\<lparr>authorization := a\<rparr>) s = serve e r s"
    by (cases "route r") (simp_all add: serve_def)
  have "status (fst (createTask e (payload r) s)) \<noteq> 401"
    by (cases "BodyParser (payload r)"; cases "exec_result e") (simp_all add: createTask_def Let_def)
  moreover have "status (fst (getTasks e s)) \<noteq> 401"
    by (simp add: getTasks_def Let_def)
  ultimately have b: "status (fst (serve e r s)) \<noteq> 401"
    by (cases "route r") (simp_all add: serve_def)
  from a b show ?thesis by blast
qed

text \<open>
  Claim C8 asks that a task read, a task write and a real-time connect be rejected as
  unauthorized when the bearer credential is absent. The code does not do so: with no
  \<^verbatim>\<open>Authorization\<close> header, the task write is answered with status 200 and inserts
  its row, the task read is answered with status 200 and the list of tasks, and the
  connect is upgraded and registered.
\<close>

theorem serve_without_credential_accepted:
  "authorization ex_request_anon = None \<and> route ex_request_anon = PostTask \<and>
   status (fst (serve ex_env ex_request_anon ex_server)) = 200 \<and>
   tasks_table (snd (serve ex_env ex_request_anon ex_server)) = [ex_stored] \<and>
   authorization ex_read_anon = None \<and> route ex_read_anon = GetTasks \<and>
   fst (serve ex_env ex_read_anon ex_server) = \<lparr>status = 200, body = JArr []\<rparr> \<and>
   authorization ex_connect_anon = None \<and> route ex_connect_anon = GetWs \<and>
   status (fst (serve ex_env ex_connect_anon ex_server)) = 101 \<and>
   clients (snd (serve ex_env ex_connect_anon ex_server)) 9 = Some True"
proof -
  have x: "exec_result ex_env = Some 7" by (simp add: ex_env_def)
  have r: "stored_row ex_env ex_task 7 = ex_stored"
    by (simp add: stored_row_def ex_env_def ex_task_def ex_stored_def)
  have sv: "serve ex_env ex_request_anon ex_server = createTask ex_env ex_body ex_server"
    by (simp add: serve_def ex_request_anon_def)
  have st: "status (fst (serve ex_env ex_request_anon ex_server)) = 200"
    by (simp add: sv createTask_ok_response [OF ex_body_parsed x])
  have tb: "tasks_table (snd (serve ex_env ex_request_anon ex_server)) = [ex_stored]"
    using createTask_ok_table [OF ex_body_parsed x, of ex_server] r
    by (simp add: sv) (simp add: ex_server_def)
  have rd: "fst (serve ex_env ex_read_anon ex_server) = \<lparr>status = 200, body = JArr []\<rparr>"
    by (simp add: serve_def ex_read_anon_def getTasks_def rows_next_def ex_env_def ex_server_def)
  have ws: "status (fst (serve ex_env ex_connect_anon ex_server)) = 101 \<and>
            clients (snd (serve ex_env ex_connect_anon ex_server)) 9 = Some True"
    by (simp add: serve_def ex_connect_anon_def ws_open_def register_def)
  from st tb rd ws show ?thesis
    by (simp add: ex_request_anon_def ex_connect_anon_def ex_read_anon_def)
qed

section \<open>Reading the tasks\<close>

lemma getTasks_body_not_null: "\<not> query_fails e \<Longrightarrow> body (fst (getTasks e s)) \<noteq> JNull"
  by (cases "scan_rows (scan_fails e) (rows_next e (tasks_table s)) NilSlice")
     (simp_all add: getTasks_def Let_def)

text \<open>
  Claim C9. When the query succeeds and the table has no row, \<^verbatim>\<open>getTasks\<close> answers
  with status 200 and the empty JSON array, not with \<^verbatim>\<open>null\<close>, which the nil slice would
  encode to; the state is as before.
\<close>

theorem getTasks_empty_array:
  "\<not> query_fails e \<Longrightarrow> tasks_table s = [] \<Longrightarrow>
   getTasks e s = (\<lparr>status = 200, body = JArr []\<rparr>, s) \<and>
   body (fst (getTasks e s)) \<noteq> JNull \<and>
   json_of_tasks (scan_rows (scan_fails e) (tasks_table s) NilSlice) = JNull \<and>
   json_of_tasks (scan_rows (scan_fails e) (rows_next e (tasks_table s)) NilSlice) = JNull"
  by (cases "next_stops_after e") (simp_all add: getTasks_def rows_next_def Let_def)

theorem getTasks_empty_array_witness:
  "\<not> query_fails ex_env \<and> tasks_table ex_server = [] \<and>
   getTasks ex_env ex_server = (\<lparr>status = 200, body = JArr []\<rparr>, ex_server)"
proof -
  have q: "\<not> query_fails ex_env" by (simp add: ex_env_def)
  have t: "tasks_table ex_server = []" by (simp add: ex_server_def)
  from getTasks_empty_array [OF q t] q t show ?thesis by blast
qed

section \<open>Messages from a client\<close>

lemma ex_after_failure_clients:
  "clients ex_server_after_failure = clients (ws_open 2 ex_server) |` {c. \<not> write_fails ex_env c}"
proof -
  have gr: "go_range (clients (ws_open 2 ex_server)) (range_order ex_env)"
    by (auto simp: go_range_def ws_open_def register_def ex_server_def ex_env_def)
  show ?thesis
    by (simp add: ex_server_after_failure_def ws_message_range [OF gr])
qed

lemma ex_after_failure_range:
  "go_range (clients ex_server_after_failure) (range_order ex_env_later)"
  by (auto simp: go_range_def ex_after_failure_clients ws_open_def register_def
        ex_server_def ex_env_def ex_env_later_def restrict_map_def dom_def split: if_splits)

text \<open>
  Claim C10, as the code has it. For a message read from any connection, in any order of
  visit, the handler writes that message type and those bytes once to every handle that
  is registered at that moment, and the message reaches every such handle whose write
  does not fail. The sender is written to exactly when it is still registered: it
  registers itself on entry, and a failed write to it removes it. No INSERT is made and
  the table is unchanged.
\<close>

theorem ws_message_relayed_to_all:
  "go_range (clients s) (range_order e) \<Longrightarrow>
   (let s' = ws_message e c messageType msg s;
        evs = new_events s s'
    in trace s' = trace s @ evs \<and>
       attempts evs = map (\<lambda>d. (d, RawMessage messageType msg)) (range_order e) \<and>
       set (map fst (attempts evs)) = dom (clients s) \<and>
       deliveries evs = map (\<lambda>d. (d, RawMessage messageType msg))
                          (filter (\<lambda>d. \<not> write_fails e d) (range_order e)) \<and>
       (clients s c \<noteq> None \<longrightarrow> (c, RawMessage messageType msg) \<in> set (attempts evs)) \<and>
       (clients s c \<noteq> None \<and> \<not> write_fails e c
          \<longrightarrow> (c, RawMessage messageType msg) \<in> set (deliveries evs)) \<and>
       (clients s c = None \<longrightarrow> c \<notin> set (map fst (attempts evs))) \<and>
       clients (ws_open c s) c = Some True \<and>
       clients s' = clients s |` {d. \<not> write_fails e d} \<and>
       execs evs = [] \<and>
       tasks_table s' = tasks_table s)"
proof -
  assume gr: "go_range (clients s) (range_order e)"
  let ?msg = "RawMessage messageType msg"
  let ?s' = "ws_message e c messageType msg s"
  let ?evs = "new_events s ?s'"
  from gr have se: "set (range_order e) = dom (clients s)"
    by (simp add: go_range_def)
  have tr: "trace ?s' = trace s @ concat (map (visit (write_fails e) ?msg) (range_order e))"
    by (simp add: ws_message_range [OF gr])
  have ne: "?evs = concat (map (visit (write_fails e) ?msg) (range_order e))"
    using tr by (rule new_events_append)
  have c1: "trace ?s' = trace s @ ?evs" by (simp only: ne tr)
  have c2: "attempts ?evs = map (\<lambda>d. (d, ?msg)) (range_order e)"
    by (simp only: ne attempts_visits)
  have c3: "set (map fst (attempts ?evs)) = dom (clients s)"
    using se by (simp add: c2 comp_def)
  have c4: "deliveries ?evs = map (\<lambda>d. (d, ?msg)) (filter (\<lambda>d. \<not> write_fails e d) (range_order e))"
    by (simp only: ne deliveries_visits)
  have c5: "clients s c \<noteq> None \<longrightarrow> (c, ?msg) \<in> set (attempts ?evs)"
    using se by (auto simp: c2)
  have c6: "clients s c \<noteq> None \<and> \<not> write_fails e c \<longrightarrow> (c, ?msg) \<in> set (deliveries ?evs)"
    using se by (auto simp: c4)
  have c6': "clients s c = None \<longrightarrow> c \<notin> set (map fst (attempts ?evs))"
    by (auto simp only: c3)
  have c7: "clients (ws_open c s) c = Some True"
    by (simp add: ws_open_def register_def)
  have c7': "clients ?s' = clients s |` {d. \<not> write_fails e d}"
    by (simp add: ws_message_range [OF gr])
  have c8: "execs ?evs = []" by (simp only: ne execs_visits)
  have c9: "tasks_table ?s' = tasks_table s" by (simp add: ws_message_range [OF gr])
  from c1 c2 c3 c4 c5 c6 c6' c7 c7' c8 c9 show ?thesis
    unfolding Let_def by blast
qed

theorem ws_message_relayed_to_all_witness:
  "go_range (clients ex_server) (range_order ex_env) \<and>
   clients ex_server 1 \<noteq> None \<and> \<not> write_fails ex_env 1 \<and>
   deliveries (new_events ex_server (ws_message ex_env 1 1 ''forged'' ex_server)) =
     [(3, RawMessage 1 ''forged''), (1, RawMessage 1 ''forged'')] \<and>
   tasks_table (ws_message ex_env 1 1 ''forged'' ex_server) = [] \<and>
   go_range (clients ex_server_after_failure) (range_order ex_env_later) \<and>
   clients ex_server_after_failure 2 = None \<and>
   2 \<notin> set (map fst (attempts (new_events ex_server_after_failure
      (ws_message ex_env_later 2 1 ''forged'' ex_server_after_failure))))"
proof -
  note t = ws_message_relayed_to_all [OF ex_go_range, of 1 1 "''forged''", unfolded Let_def]
  note u = ws_message_relayed_to_all [OF ex_after_failure_range, of 2 1 "''forged''", unfolded Let_def]
  have r: "clients ex_server 1 \<noteq> None \<and> \<not> write_fails ex_env 1"
    by (simp add: ex_server_def ex_env_def)
  from t have "deliveries (new_events ex_server (ws_message ex_env 1 1 ''forged'' ex_server)) =
      map (\<lambda>d. (d, RawMessage 1 ''forged'')) (filter (\<lambda>d. \<not> write_fails ex_env d) (range_order ex_env))"
    by blast
  then have a: "deliveries (new_events ex_server (ws_message ex_env 1 1 ''forged'' ex_server)) =
     [(3, RawMessage 1 ''forged''), (1, RawMessage 1 ''forged'')]"
    by (simp add: ex_env_def)
  from t have "tasks_table (ws_message ex_env 1 1 ''forged'' ex_server) = tasks_table ex_server"
    by blast
  then have b: "tasks_table (ws_message ex_env 1 1 ''forged'' ex_server) = []"
    by (simp add: ex_server_def)
  have g: "clients ex_server_after_failure 2 = None"
    by (simp add: ex_after_failure_clients restrict_map_def ex_env_def)
  from u g have h: "2 \<notin> set (map fst (attempts (new_events ex_server_after_failure
      (ws_message ex_env_later 2 1 ''forged'' ex_server_after_failure))))"
    by blast
  from ex_go_range r a b ex_after_failure_range g h show ?thesis by blast
qed

text \<open>
  Against claim C10 as stated: connection 2 registers itself on entry; a message from
  connection 1 is relayed, the write to connection 2 fails, and connection 2 is removed.
  A message then read from connection 2 is written to connections 3 and 1 and not to its
  sender.
\<close>

theorem ws_message_sender_removed_counterexample:
  "clients (ws_open 2 ex_server) 2 = Some True \<and>
   write_fails ex_env 2 \<and>
   ex_server_after_failure = ws_message ex_env 1 1 ''hello'' (ws_open 2 ex_server) \<and>
   clients ex_server_after_failure 2 = None \<and>
   attempts (new_events ex_server_after_failure
      (ws_message ex_env_later 2 1 ''forged'' ex_server_after_failure)) =
     [(3, RawMessage 1 ''forged''), (1, RawMessage 1 ''forged'')]"
proof -
  have a: "clients (ws_open 2 ex_server) 2 = Some True"
    by (simp add: ws_open_def register_def)
  have b: "write_fails ex_env 2" by (simp add: ex_env_def)
  have g: "clients ex_server_after_failure 2 = None"
    by (simp add: ex_after_failure_clients restrict_map_def ex_env_def)
  have tr: "trace (ws_message ex_env_later 2 1 ''forged'' ex_server_after_failure) =
              trace ex_server_after_failure @
              concat (map (visit (write_fails ex_env_later) (RawMessage 1 ''forged'')) (range_order ex_env_later))"
    by (simp add: ws_message_range [OF ex_after_failure_range])
  have ne: "new_events ex_server_after_failure
              (ws_message ex_env_later 2 1 ''forged'' ex_server_after_failure) =
            concat (map (visit (write_fails ex_env_later) (RawMessage 1 ''forged'')) (range_order ex_env_later))"
    using tr by (rule new_events_append)
  have at: "attempts (new_events ex_server_after_failure
      (ws_message ex_env_later 2 1 ''forged'' ex_server_after_failure)) =
     [(3, RawMessage 1 ''forged''), (1, RawMessage 1 ''forged'')]"
    by (simp only: ne attempts_visits) (simp add: ex_env_later_def ex_env_def)
  from a b g at show ?thesis by (simp add: ex_server_after_failure_def)
qed

end
